theory Spec2Isabelle
  imports Main
begin

section \<open>The toolkit as seen from \<open>fast_animate.py\<close>\<close>

text \<open>
  The program drives matplotlib objects: a canvas with its figure, and artists (a line and
  an annotation) that live in the figure. Python compares these objects by identity, so
  each object is named by a reference (a number); two references are equal exactly when
  they denote the same object. The mutable attributes of the artists live in an object
  store, because the renderer loop changes an artist that the redraw manager also holds.

  The sample values are floating-point numbers in the source; nothing below computes with
  them, so their type is the parameter \<open>'a\<close>.
\<close>

datatype error = RuntimeError

datatype outcome = Returned | Raised error

type_synonym figure_ref = nat
type_synonym artist_ref = nat

text \<open>A canvas object and the figure it shows (\<open>canvas.figure\<close>).\<close>

datatype canvas = Canvas (canvas_id: nat) (figure: figure_ref)

text \<open>The event object handed to a \<open>draw_event\<close> callback; the code reads \<open>event.canvas\<close>.\<close>

datatype draw_event = DrawEvent (event_canvas: canvas)

text \<open>
  The object \<open>copy_from_bbox\<close> returns is opaque to the program: it is stored in \<open>_bg\<close> and
  handed back to \<open>restore_region\<close>. Each call returns a new object, named here by the number
  of captures made before it.
\<close>

datatype region = Region nat

datatype 'a payload = YData "'a list" | Label string

record 'a artist =
  art_figure :: figure_ref
  animated :: bool
  payload :: "'a payload"

text \<open>Every call the program makes on the toolkit, in the order it makes them.\<close>

datatype 'a call =
    UseBackend string
  | Subplots
  | Plot artist_ref
  | SetXlim int int
  | SetYlim int int
  | Annotate artist_ref
  | MplConnect canvas
  | CopyFromBbox canvas figure_ref
  | DrawArtist figure_ref artist_ref "'a payload"
  | RestoreRegion canvas region
  | Blit canvas figure_ref
  | FlushEvents canvas
  | SetAnimated artist_ref bool
  | SetYData artist_ref "'a list"
  | SetText artist_ref string
  | ShowNonBlocking
  | Pause int
  | Print string
  | Close

record 'a world =
  objects :: "artist_ref \<Rightarrow> 'a artist"
  n_objects :: nat
  calls :: "'a call list"

definition emit :: "'a call \<Rightarrow> 'a world \<Rightarrow> 'a world" where
  "emit c w = w\<lparr>calls := calls w @ [c]\<rparr>"

fun is_capture :: "'a call \<Rightarrow> bool" where
  "is_capture (CopyFromBbox cv f) = True"
| "is_capture c = False"

fun is_connect :: "'a call \<Rightarrow> bool" where
  "is_connect (MplConnect cv) = True"
| "is_connect c = False"

definition captures :: "'a world \<Rightarrow> nat" where
  "captures w = length (filter is_capture (calls w))"

definition copy_from_bbox :: "canvas \<Rightarrow> figure_ref \<Rightarrow> 'a world \<Rightarrow> region \<times> 'a world" where
  "copy_from_bbox cv f w = (Region (captures w), emit (CopyFromBbox cv f) w)"

definition restore_region :: "canvas \<Rightarrow> region \<Rightarrow> 'a world \<Rightarrow> 'a world" where
  "restore_region cv r w = emit (RestoreRegion cv r) w"

definition blit :: "canvas \<Rightarrow> figure_ref \<Rightarrow> 'a world \<Rightarrow> 'a world" where
  "blit cv f w = emit (Blit cv f) w"

definition flush_events :: "canvas \<Rightarrow> 'a world \<Rightarrow> 'a world" where
  "flush_events cv w = emit (FlushEvents cv) w"

definition mpl_connect :: "canvas \<Rightarrow> 'a world \<Rightarrow> nat \<times> 'a world" where
  "mpl_connect cv w = (length (filter is_connect (calls w)), emit (MplConnect cv) w)"

text \<open>\<open>fig.draw_artist(a)\<close> renders the artist as it is in the store at that moment.\<close>

definition draw_artist :: "figure_ref \<Rightarrow> artist_ref \<Rightarrow> 'a world \<Rightarrow> 'a world" where
  "draw_artist f a w = emit (DrawArtist f a (payload (objects w a))) w"

definition set_animated :: "artist_ref \<Rightarrow> bool \<Rightarrow> 'a world \<Rightarrow> 'a world" where
  "set_animated a b w =
     emit (SetAnimated a b) (w\<lparr>objects := (objects w)(a := (objects w a)\<lparr>animated := b\<rparr>)\<rparr>)"

definition set_ydata :: "artist_ref \<Rightarrow> 'a list \<Rightarrow> 'a world \<Rightarrow> 'a world" where
  "set_ydata a d w =
     emit (SetYData a d) (w\<lparr>objects := (objects w)(a := (objects w a)\<lparr>payload := YData d\<rparr>)\<rparr>)"

definition set_text :: "artist_ref \<Rightarrow> string \<Rightarrow> 'a world \<Rightarrow> 'a world" where
  "set_text a s w =
     emit (SetText a s) (w\<lparr>objects := (objects w)(a := (objects w a)\<lparr>payload := Label s\<rparr>)\<rparr>)"

definition new_artist :: "'a artist \<Rightarrow> 'a world \<Rightarrow> artist_ref \<times> 'a world" where
  "new_artist a w =
     (n_objects w, w\<lparr>objects := (objects w)(n_objects w := a), n_objects := Suc (n_objects w)\<rparr>)"

section \<open>class BlitManager\<close>

text \<open>
  The fields \<open>canvas\<close>, \<open>_bg\<close>, \<open>_artists\<close> and \<open>cid\<close>. \<open>_bg\<close> is \<open>None\<close> until a snapshot
  is taken; \<open>cid\<close> is assigned by the last statement of \<open>__init__\<close>.
  Every method takes the manager and the toolkit state and returns how it ended together
  with both as it left them: a raise keeps whatever was done before it.
\<close>

record blit_manager =
  canvas :: canvas
  bg :: "region option"
  artists :: "artist_ref list"
  cid :: "nat option"

text \<open>\<open>_draw_animated\<close>: the loop \<open>for a in self._artists: fig.draw_artist(a)\<close>.\<close>

fun draw_each :: "figure_ref \<Rightarrow> artist_ref list \<Rightarrow> 'a world \<Rightarrow> 'a world" where
  "draw_each fig [] w = w"
| "draw_each fig (a # as) w = draw_each fig as (draw_artist fig a w)"

definition draw_animated :: "blit_manager \<Rightarrow> 'a world \<Rightarrow> 'a world" where
  "draw_animated self w = (let fig = figure (canvas self) in draw_each fig (artists self) w)"

definition on_draw ::
  "draw_event option \<Rightarrow> blit_manager \<Rightarrow> 'a world \<Rightarrow> outcome \<times> blit_manager \<times> 'a world" where
  "on_draw event self w =
     (let cv = canvas self;
          foreign = (case event of None \<Rightarrow> False | Some ev \<Rightarrow> event_canvas ev \<noteq> cv)
      in
      if foreign then (Raised RuntimeError, self, w)
      else
        (let (r, w1) = copy_from_bbox cv (figure cv) w;
             self1 = self\<lparr>bg := Some r\<rparr>
         in (Returned, self1, draw_animated self1 w1)))"

definition add_artist ::
  "artist_ref \<Rightarrow> blit_manager \<Rightarrow> 'a world \<Rightarrow> outcome \<times> blit_manager \<times> 'a world" where
  "add_artist art self w =
     (if art_figure (objects w art) \<noteq> figure (canvas self) then (Raised RuntimeError, self, w)
      else
        (let w1 = set_animated art True w
         in (Returned, self\<lparr>artists := artists self @ [art]\<rparr>, w1)))"

definition update :: "blit_manager \<Rightarrow> 'a world \<Rightarrow> outcome \<times> blit_manager \<times> 'a world" where
  "update self w =
     (let cv = canvas self; fig = figure cv in
      case bg self of
        None \<Rightarrow>
          (case on_draw None self w of
             (Raised e, self1, w1) \<Rightarrow> (Raised e, self1, w1)
           | (Returned, self1, w1) \<Rightarrow> (Returned, self1, flush_events cv w1))
      | Some b \<Rightarrow>
          (let w1 = restore_region cv b w;
               w2 = draw_animated self w1;
               w3 = blit cv fig w2
           in (Returned, self, flush_events cv w3)))"

text \<open>\<open>__init__\<close>: the loop over \<open>animated_artists\<close>, then the subscription to draw events.\<close>

fun add_artists ::
  "artist_ref list \<Rightarrow> blit_manager \<Rightarrow> 'a world \<Rightarrow> outcome \<times> blit_manager \<times> 'a world" where
  "add_artists [] self w = (Returned, self, w)"
| "add_artists (a # as) self w =
     (case add_artist a self w of
        (Raised e, self1, w1) \<Rightarrow> (Raised e, self1, w1)
      | (Returned, self1, w1) \<Rightarrow> add_artists as self1 w1)"

definition BlitManager ::
  "canvas \<Rightarrow> artist_ref list \<Rightarrow> 'a world \<Rightarrow> outcome \<times> blit_manager \<times> 'a world" where
  "BlitManager cv animated_artists w =
     (let self = \<lparr>canvas = cv, bg = None, artists = [], cid = None\<rparr> in
      case add_artists animated_artists self w of
        (Raised e, self1, w1) \<Rightarrow> (Raised e, self1, w1)
      | (Returned, self1, w1) \<Rightarrow>
          (let (c, w2) = mpl_connect cv w1 in (Returned, self1\<lparr>cid := Some c\<rparr>, w2)))"

section \<open>The toolkit and the caller driving the manager\<close>

text \<open>
  The manager is driven from outside: the toolkit calls \<open>on_draw\<close> with an event whenever a
  canvas it is subscribed to has been fully redrawn, and the renderer calls \<open>update\<close> and
  \<open>add_artist\<close>. A run is a sequence of such calls.

  The two kinds of call end differently when they raise. \<open>update\<close> and \<open>add_artist\<close> are
  called by the program's own code, which has no \<open>try\<close>: a raise there ends the run. A
  draw event is delivered by matplotlib's callback registry, which calls the handler inside
  a \<open>try\<close> block; with a GUI event loop running (the renderer selects \<open>Qt5Agg\<close>) it
  prints the traceback of an exception of the handler and does not raise it again. So the
  delivery itself returns normally, with the manager and the toolkit as the handler left
  them, and the run goes on.
\<close>

datatype manager_op = FullRedraw canvas | UpdateCall | Register artist_ref

definition process_draw_event ::
  "canvas \<Rightarrow> blit_manager \<Rightarrow> 'a world \<Rightarrow> outcome \<times> blit_manager \<times> 'a world" where
  "process_draw_event cv self w =
     (case on_draw (Some (DrawEvent cv)) self w of
        (Raised e, self1, w1) \<Rightarrow> (Returned, self1, w1)
      | (Returned, self1, w1) \<Rightarrow> (Returned, self1, w1))"

fun step :: "manager_op \<Rightarrow> blit_manager \<Rightarrow> 'a world \<Rightarrow> outcome \<times> blit_manager \<times> 'a world" where
  "step (FullRedraw cv) self w = process_draw_event cv self w"
| "step UpdateCall self w = update self w"
| "step (Register art) self w = add_artist art self w"

fun run_ops ::
  "manager_op list \<Rightarrow> blit_manager \<Rightarrow> 'a world \<Rightarrow> outcome \<times> blit_manager \<times> 'a world" where
  "run_ops [] self w = (Returned, self, w)"
| "run_ops (op # ops) self w =
     (case step op self w of
        (Raised e, self1, w1) \<Rightarrow> (Raised e, self1, w1)
      | (Returned, self1, w1) \<Rightarrow> run_ops ops self1 w1)"

fun restored :: "'a call list \<Rightarrow> region list" where
  "restored [] = []"
| "restored (RestoreRegion cv r # cs) = r # restored cs"
| "restored (c # cs) = restored cs"

text \<open>Observers of the call trace: what was handed to the line and to the label, and how
  often the event loop was flushed.\<close>

fun shown_frames :: "'a call list \<Rightarrow> 'a list list" where
  "shown_frames [] = []"
| "shown_frames (SetYData a d # cs) = d # shown_frames cs"
| "shown_frames (c # cs) = shown_frames cs"

fun shown_texts :: "'a call list \<Rightarrow> string list" where
  "shown_texts [] = []"
| "shown_texts (SetText a t # cs) = t # shown_texts cs"
| "shown_texts (c # cs) = shown_texts cs"

fun flushes :: "'a call list \<Rightarrow> nat" where
  "flushes [] = 0"
| "flushes (FlushEvents cv # cs) = Suc (flushes cs)"
| "flushes (c # cs) = flushes cs"

fun blits :: "'a call list \<Rightarrow> nat" where
  "blits [] = 0"
| "blits (Blit cv f # cs) = Suc (blits cs)"
| "blits (c # cs) = blits cs"

text \<open>The calls that the methods of the manager make.\<close>

fun is_render :: "'a call \<Rightarrow> bool" where
  "is_render (CopyFromBbox cv f) = True"
| "is_render (DrawArtist f a p) = True"
| "is_render (RestoreRegion cv r) = True"
| "is_render (Blit cv f) = True"
| "is_render (FlushEvents cv) = True"
| "is_render c = False"

section \<open>animated_plot_process\<close>

text \<open>\<open>"frame: {j}".format(j=frame_num)\<close> writes the integer in decimal.\<close>

definition digit_char :: "nat \<Rightarrow> char" where
  "digit_char d = char_of (48 + d)"

fun str_nat :: "nat \<Rightarrow> string" where
  "str_nat n = (if n < 10 then [digit_char n] else str_nat (n div 10) @ [digit_char (n mod 10)])"

declare str_nat.simps [simp del]

definition str_int :: "int \<Rightarrow> string" where
  "str_int i = (if i < 0 then CHR ''-'' # str_nat (nat (- i)) else str_nat (nat i))"

text \<open>The local variables of the renderer process, and the toolkit state of that process.\<close>

record 'a locals =
  frame_num :: int
  data :: "'a list"
  ln :: artist_ref
  fr_number :: artist_ref
  bm :: blit_manager
  world :: "'a world"

text \<open>
  \<open>thermistor_queue.get()\<close> blocks until an item is there. The queue is given as the list of
  everything the producer ever puts, in order; when the list is exhausted \<open>get\<close> never
  returns, and the process stays blocked with the locals it has (\<open>Blocked\<close>). Otherwise the
  function ends, by return or by an uncaught exception, and leaves the items it has not
  read (\<open>Exited\<close>).
\<close>

datatype 'a run = Blocked "'a locals" | Exited outcome "'a locals" "'a list list"

text \<open>
  While the process is inside \<open>plt.pause\<close> or \<open>flush_events\<close> the GUI event loop runs, and
  each full redraw of the window calls back \<open>on_draw\<close> with an event of the manager's own
  canvas (the only canvas it subscribed to). How many redraws happen is up to the toolkit:
  \<open>env i\<close> is their number during the event-loop run of iteration \<open>i\<close> (\<open>0\<close> for the pause
  before the loop), and every property below is proved for all \<open>env\<close>.
\<close>

definition event_loop ::
  "nat \<Rightarrow> blit_manager \<Rightarrow> 'a world \<Rightarrow> outcome \<times> blit_manager \<times> 'a world" where
  "event_loop n self w = run_ops (replicate n (FullRedraw (canvas self))) self w"

definition update_with_events ::
  "nat \<Rightarrow> blit_manager \<Rightarrow> 'a world \<Rightarrow> outcome \<times> blit_manager \<times> 'a world" where
  "update_with_events n self w =
     (case update self w of
        (Raised e, self1, w1) \<Rightarrow> (Raised e, self1, w1)
      | (Returned, self1, w1) \<Rightarrow> event_loop n self1 w1)"

text \<open>The \<open>while True\<close> loop, lines 115 to 125.\<close>

fun renderer_loop :: "(int \<Rightarrow> nat) \<Rightarrow> 'a list list \<Rightarrow> 'a locals \<Rightarrow> 'a run" where
  "renderer_loop env [] s = Blocked s"
| "renderer_loop env (d # q) s =
     (let s1 = s\<lparr>data := d\<rparr>;
          s2 = s1\<lparr>frame_num := frame_num s1 + 1\<rparr>
      in
      if length d = 0 then
        (let w1 = emit (Print ''Breaking...'') (world s2);
             w2 = emit Close w1
         in Exited Returned (s2\<lparr>world := w2\<rparr>) q)
      else
        (let w1 = set_ydata (ln s2) d (world s2);
             w2 = set_text (fr_number s2) (''frame: '' @ str_int (frame_num s2)) w1
         in
         case update_with_events (env (frame_num s2)) (bm s2) w2 of
           (Raised e, b, w3) \<Rightarrow> Exited (Raised e) (s2\<lparr>bm := b, world := w3\<rparr>) q
         | (Returned, b, w3) \<Rightarrow> renderer_loop env q (s2\<lparr>bm := b, world := w3\<rparr>)))"

text \<open>A process starts with no artists and no toolkit calls made.\<close>

definition fresh_world :: "'a world" where
  "fresh_world =
     \<lparr>objects = (\<lambda>r. \<lparr>art_figure = 0, animated = False, payload = Label []\<rparr>),
      n_objects = 0, calls = []\<rparr>"

text \<open>
  \<open>cv\<close> is the canvas of the figure that \<open>plt.subplots()\<close> creates; the line and the
  annotation are created in that figure with \<open>animated=True\<close>.
\<close>

definition animated_plot_process ::
  "(int \<Rightarrow> nat) \<Rightarrow> canvas \<Rightarrow> 'a::zero list list \<Rightarrow> nat \<Rightarrow> 'a run" where
  "animated_plot_process env cv thermistor_queue n_samples =
     (let w1 = emit (UseBackend ''Qt5Agg'') fresh_world;
          frame_num0 = 0;
          data0 = replicate n_samples 0;
          w2 = emit Subplots w1;
          (ln0, w3) = new_artist \<lparr>art_figure = figure cv, animated = True, payload = YData data0\<rparr> w2;
          w4 = emit (Plot ln0) w3;
          w5 = emit (SetXlim 0 (int n_samples)) w4;
          w6 = emit (SetYlim 0 1) w5;
          (fr0, w7) = new_artist \<lparr>art_figure = figure cv, animated = True, payload = Label ''0''\<rparr> w6;
          w8 = emit (Annotate fr0) w7
      in
      case BlitManager cv [ln0, fr0] w8 of
        (Raised e, b, w9) \<Rightarrow>
          Exited (Raised e)
            \<lparr>frame_num = frame_num0, data = data0, ln = ln0, fr_number = fr0, bm = b, world = w9\<rparr>
            thermistor_queue
      | (Returned, b, w9) \<Rightarrow>
          (let w10 = emit ShowNonBlocking w9;
               w11 = emit (Pause 1) w10
           in
           case event_loop (env 0) b w11 of
             (Raised e, b1, w12) \<Rightarrow>
               Exited (Raised e)
                 \<lparr>frame_num = frame_num0, data = data0, ln = ln0, fr_number = fr0, bm = b1,
                  world = w12\<rparr>
                 thermistor_queue
           | (Returned, b1, w12) \<Rightarrow>
               renderer_loop env thermistor_queue
                 \<lparr>frame_num = frame_num0, data = data0, ln = ln0, fr_number = fr0, bm = b1,
                  world = w12\<rparr>))"

text \<open>Reading a run: whether the process ended, and its locals at the end (or where it
  is blocked).\<close>

fun exited :: "'a run \<Rightarrow> bool" where
  "exited (Blocked s) = False"
| "exited (Exited oc s rest) = True"

fun final_locals :: "'a run \<Rightarrow> 'a locals" where
  "final_locals (Blocked s) = s"
| "final_locals (Exited oc s rest) = s"

text \<open>A toolkit that never redraws the window on its own.\<close>

definition no_redraws :: "int \<Rightarrow> nat" where
  "no_redraws i = 0"

section \<open>main\<close>

text \<open>
  What the producer process does, in order. \<open>np.random.random((n_samples,))\<close> returns a
  vector of \<open>n_samples\<close> values; \<open>rng j i\<close> is component \<open>i\<close> of the vector of call \<open>j\<close>.
  The elapsed time that is printed is a clock reading and is left abstract.
\<close>

datatype 'a action =
    NewQueue
  | StartProcess nat
  | Put "'a list"
  | PrintElapsed
  | Join
  | PrintLine string

record 'a producer =
  sent :: "'a list list"
  actions :: "'a action list"

definition act :: "'a action \<Rightarrow> 'a producer \<Rightarrow> 'a producer" where
  "act a p = p\<lparr>actions := actions p @ [a]\<rparr>"

definition put :: "'a list \<Rightarrow> 'a producer \<Rightarrow> 'a producer" where
  "put d p = act (Put d) (p\<lparr>sent := sent p @ [d]\<rparr>)"

definition random_vector :: "(nat \<Rightarrow> nat \<Rightarrow> 'a) \<Rightarrow> nat \<Rightarrow> nat \<Rightarrow> 'a list" where
  "random_vector rng j n = map (rng j) [0..<n]"

text \<open>The loop \<open>for j in range(100)\<close>, over the list of its indices.\<close>

fun produce :: "(nat \<Rightarrow> nat \<Rightarrow> 'a) \<Rightarrow> nat \<Rightarrow> nat list \<Rightarrow> 'a producer \<Rightarrow> 'a producer" where
  "produce rng n_samples [] p = p"
| "produce rng n_samples (j # js) p =
     (let d = random_vector rng j n_samples;
          p1 = put d p;
          p2 = act PrintElapsed p1
      in produce rng n_samples js p2)"

definition exitcode :: "outcome \<Rightarrow> int" where
  "exitcode oc = (case oc of Returned \<Rightarrow> 0 | Raised e \<Rightarrow> 1)"

text \<open>
  The renderer reads the queue while the producer fills it; it only ever sees the items in
  the order they were put, so what it does is what it does on the list of everything sent.
  \<open>join\<close> returns when the renderer has exited; if the renderer blocks for ever, so does
  \<open>main\<close> (\<open>None\<close>).
\<close>

definition main ::
  "(nat \<Rightarrow> nat \<Rightarrow> 'a::zero) \<Rightarrow> (int \<Rightarrow> nat) \<Rightarrow> canvas \<Rightarrow> ('a producer \<times> 'a locals) option" where
  "main rng env cv =
     (let n_samples = 400;
          p0 = act NewQueue \<lparr>sent = [], actions = []\<rparr>;
          p1 = act (StartProcess n_samples) p0;
          p2 = produce rng n_samples [0..<100] p1;
          p3 = put [] p2
      in
      case animated_plot_process env cv (sent p3) n_samples of
        Blocked s \<Rightarrow> None
      | Exited oc s rest \<Rightarrow>
          (let p4 = act Join p3;
               p5 = act (PrintLine (str_int (exitcode oc))) p4;
               p6 = act (PrintLine ''finished animate process'') p5
           in Some (p6, s)))"

section \<open>Properties of the toolkit calls\<close>

lemma calls_emit [simp]: "calls (emit c w) = calls w @ [c]"
  by (simp add: emit_def)

lemma objects_emit [simp]: "objects (emit c w) = objects w"
  by (simp add: emit_def)

lemma n_objects_emit [simp]: "n_objects (emit c w) = n_objects w"
  by (simp add: emit_def)

lemma draw_each_calls:
  "calls (draw_each f as w) = calls w @ map (\<lambda>a. DrawArtist f a (payload (objects w a))) as"
  by (induction as arbitrary: w) (simp_all add: draw_artist_def)

lemma draw_each_objects [simp]: "objects (draw_each f as w) = objects w"
  by (induction as arbitrary: w) (simp_all add: draw_artist_def)

lemma draw_each_n_objects [simp]: "n_objects (draw_each f as w) = n_objects w"
  by (induction as arbitrary: w) (simp_all add: draw_artist_def)

lemma filter_capture_draws [simp]:
  "filter is_capture (map (\<lambda>a. DrawArtist f a (g a)) as) = []"
  by (induction as) simp_all

lemma restored_append [simp]: "restored (xs @ ys) = restored xs @ restored ys"
  by (induction xs rule: restored.induct) simp_all

lemma restored_draws [simp]: "restored (map (\<lambda>a. DrawArtist f a (g a)) as) = []"
  by (induction as) simp_all

lemma on_draw_managed:
  "cv = canvas self \<Longrightarrow>
   on_draw (Some (DrawEvent cv)) self w =
     (Returned, self\<lparr>bg := Some (Region (captures w))\<rparr>,
      draw_each (figure (canvas self)) (artists self)
        (emit (CopyFromBbox (canvas self) (figure (canvas self))) w))"
  by (simp add: on_draw_def copy_from_bbox_def draw_animated_def Let_def)

lemma process_draw_event_managed [simp]:
  "cv = canvas self \<Longrightarrow>
   process_draw_event cv self w = on_draw (Some (DrawEvent cv)) self w"
  by (simp add: process_draw_event_def on_draw_managed)

lemma on_draw_None:
  "on_draw None self w =
     (Returned, self\<lparr>bg := Some (Region (captures w))\<rparr>,
      draw_each (figure (canvas self)) (artists self)
        (emit (CopyFromBbox (canvas self) (figure (canvas self))) w))"
  by (simp add: on_draw_def copy_from_bbox_def draw_animated_def Let_def)

lemma update_Some:
  "bg self = Some b \<Longrightarrow>
   update self w =
     (Returned, self,
      emit (FlushEvents (canvas self))
        (emit (Blit (canvas self) (figure (canvas self)))
           (draw_each (figure (canvas self)) (artists self)
              (emit (RestoreRegion (canvas self) b) w))))"
  by (simp add: update_def restore_region_def draw_animated_def blit_def flush_events_def Let_def)

lemma update_None:
  "bg self = None \<Longrightarrow>
   update self w =
     (Returned, self\<lparr>bg := Some (Region (captures w))\<rparr>,
      emit (FlushEvents (canvas self))
        (draw_each (figure (canvas self)) (artists self)
           (emit (CopyFromBbox (canvas self) (figure (canvas self))) w)))"
  by (simp add: update_def on_draw_None flush_events_def Let_def)


lemma captures_emit:
  "captures (emit c w) = (if is_capture c then Suc (captures w) else captures w)"
  by (simp add: captures_def)

lemma captures_draw_each [simp]: "captures (draw_each f as w) = captures w"
  by (simp add: captures_def draw_each_calls)

lemma update_keeps_snapshot:
  "bg self = Some r \<Longrightarrow>
   \<exists>w'. run_ops (replicate n UpdateCall) self w = (Returned, self, w') \<and>
        captures w' = captures w \<and>
        restored (calls w') = restored (calls w) @ replicate n r \<and>
        objects w' = objects w"
proof (induction n arbitrary: w)
  case 0
  then show ?case by simp
next
  case (Suc n)
  let ?w1 = "emit (FlushEvents (canvas self))
        (emit (Blit (canvas self) (figure (canvas self)))
           (draw_each (figure (canvas self)) (artists self)
              (emit (RestoreRegion (canvas self) r) w)))"
  from Suc.prems have u: "update self w = (Returned, self, ?w1)" by (rule update_Some)
  from Suc.IH [OF Suc.prems, of ?w1] obtain w' where
    r: "run_ops (replicate n UpdateCall) self ?w1 = (Returned, self, w')"
    and c: "captures w' = captures ?w1"
    and s: "restored (calls w') = restored (calls ?w1) @ replicate n r"
    and ob: "objects w' = objects ?w1" by blast
  have "run_ops (replicate (Suc n) UpdateCall) self w = (Returned, self, w')"
    using u r by simp
  moreover have "captures w' = captures w"
    using c by (simp add: captures_emit)
  moreover have "restored (calls w') = restored (calls w) @ replicate (Suc n) r"
    using s by (simp add: draw_each_calls replicate_append_same)
  moreover have "objects w' = objects w" using ob by simp
  ultimately show ?case by blast
qed

lemma redraws_and_updates:
  "bg self = Some r \<Longrightarrow>
   \<forall>op\<in>set ops. op = UpdateCall \<or> op = FullRedraw (canvas self) \<Longrightarrow>
   \<exists>self' w'. run_ops ops self w = (Returned, self', w') \<and>
        captures w' = captures w + count_list ops (FullRedraw (canvas self)) \<and>
        canvas self' = canvas self \<and> artists self' = artists self \<and>
        bg self' = (if count_list ops (FullRedraw (canvas self)) = 0 then Some r
                    else Some (Region (captures w' - 1)))"
proof (induction ops arbitrary: self w r)
  case Nil
  then show ?case by simp
next
  case (Cons op ops)
  from Cons.prems(2) consider (upd) "op = UpdateCall" | (redraw) "op = FullRedraw (canvas self)"
    by auto
  then show ?case
  proof cases
    case upd
    let ?w1 = "emit (FlushEvents (canvas self))
        (emit (Blit (canvas self) (figure (canvas self)))
           (draw_each (figure (canvas self)) (artists self)
              (emit (RestoreRegion (canvas self) r) w)))"
    from Cons.prems(1) have u: "update self w = (Returned, self, ?w1)" by (rule update_Some)
    from Cons.prems(2) have all: "\<forall>op\<in>set ops. op = UpdateCall \<or> op = FullRedraw (canvas self)"
      by simp
    from Cons.IH [OF Cons.prems(1) all, of ?w1] obtain self' w' where
      r: "run_ops ops self ?w1 = (Returned, self', w')"
      and c: "captures w' = captures ?w1 + count_list ops (FullRedraw (canvas self))"
      and k: "canvas self' = canvas self" "artists self' = artists self"
      and b: "bg self' = (if count_list ops (FullRedraw (canvas self)) = 0 then Some r
                    else Some (Region (captures w' - 1)))" by blast
    have "run_ops (op # ops) self w = (Returned, self', w')" using upd u r by simp
    moreover have "captures w' = captures w + count_list (op # ops) (FullRedraw (canvas self))"
      using c upd by (simp add: captures_emit)
    moreover have "bg self' = (if count_list (op # ops) (FullRedraw (canvas self)) = 0 then Some r
                    else Some (Region (captures w' - 1)))"
      using b upd by simp
    ultimately show ?thesis using k by blast
  next
    case redraw
    let ?s1 = "self\<lparr>bg := Some (Region (captures w))\<rparr>"
    let ?w1 = "draw_each (figure (canvas self)) (artists self)
        (emit (CopyFromBbox (canvas self) (figure (canvas self))) w)"
    have u: "on_draw (Some (DrawEvent (canvas self))) self w = (Returned, ?s1, ?w1)"
      by (simp add: on_draw_managed)
    have b1: "bg ?s1 = Some (Region (captures w))" by simp
    from Cons.prems(2)
    have all: "\<forall>op\<in>set ops. op = UpdateCall \<or> op = FullRedraw (canvas ?s1)" by simp
    from Cons.IH [OF b1 all, of ?w1] obtain self' w' where
      r: "run_ops ops ?s1 ?w1 = (Returned, self', w')"
      and c: "captures w' = captures ?w1 + count_list ops (FullRedraw (canvas self))"
      and k: "canvas self' = canvas self" "artists self' = artists self"
      and b: "bg self' = (if count_list ops (FullRedraw (canvas self)) = 0
                    then Some (Region (captures w))
                    else Some (Region (captures w' - 1)))" by auto
    have "run_ops (op # ops) self w = (Returned, self', w')" using redraw u r by simp
    moreover have c': "captures w' = captures w + count_list (op # ops) (FullRedraw (canvas self))"
      using c redraw by (simp add: captures_emit)
    moreover have "bg self' = (if count_list (op # ops) (FullRedraw (canvas self)) = 0 then Some r
                    else Some (Region (captures w' - 1)))"
      using b c' redraw by simp
    ultimately show ?thesis using k by blast
  qed
qed

lemma shown_frames_append [simp]: "shown_frames (xs @ ys) = shown_frames xs @ shown_frames ys"
  by (induction xs rule: shown_frames.induct) simp_all

lemma shown_texts_append [simp]: "shown_texts (xs @ ys) = shown_texts xs @ shown_texts ys"
  by (induction xs rule: shown_texts.induct) simp_all

lemma flushes_append [simp]: "flushes (xs @ ys) = flushes xs + flushes ys"
  by (induction xs rule: flushes.induct) simp_all

lemma render_shows_nothing:
  "list_all is_render cs \<Longrightarrow> shown_frames cs = [] \<and> shown_texts cs = []"
proof (induction cs)
  case Nil
  then show ?case by simp
next
  case (Cons c cs)
  then show ?case by (cases c) simp_all
qed

lemma draws_are_render [simp]: "list_all is_render (map (\<lambda>a. DrawArtist f a (g a)) as)"
  by (induction as) simp_all

lemma flushes_draws [simp]: "flushes (map (\<lambda>a. DrawArtist f a (g a)) as) = 0"
  by (induction as) simp_all

lemma update_result:
  assumes "update self w = (oc, self', w')"
  shows "oc = Returned \<and> canvas self' = canvas self \<and> artists self' = artists self \<and>
         objects w' = objects w \<and> n_objects w' = n_objects w \<and>
         (\<exists>extra. calls w' = calls w @ extra \<and> list_all is_render extra \<and> flushes extra = 1)"
proof (cases "bg self")
  case None
  from assms update_None [OF None, of w] show ?thesis
    by (auto simp: draw_each_calls)
next
  case (Some b)
  from assms update_Some [OF Some, of w] show ?thesis
    by (auto simp: draw_each_calls)
qed

lemma event_loop_result:
  "event_loop n self w = (oc, self', w') \<Longrightarrow>
   oc = Returned \<and> canvas self' = canvas self \<and> artists self' = artists self \<and>
   objects w' = objects w \<and> n_objects w' = n_objects w \<and>
   (\<exists>extra. calls w' = calls w @ extra \<and> list_all is_render extra \<and> flushes extra = 0)"
proof (induction n arbitrary: self w)
  case 0
  then show ?case by (simp add: event_loop_def)
next
  case (Suc n)
  let ?s1 = "self\<lparr>bg := Some (Region (captures w))\<rparr>"
  let ?w1 = "draw_each (figure (canvas self)) (artists self)
        (emit (CopyFromBbox (canvas self) (figure (canvas self))) w)"
  from Suc.prems have "event_loop n ?s1 ?w1 = (oc, self', w')"
    by (simp add: event_loop_def on_draw_managed)
  from Suc.IH [OF this] show ?case
    by (auto simp: draw_each_calls)
qed

lemma update_with_events_result:
  assumes "update_with_events n self w = (oc, self', w')"
  shows "oc = Returned \<and> canvas self' = canvas self \<and> artists self' = artists self \<and>
         objects w' = objects w \<and> n_objects w' = n_objects w \<and>
         (\<exists>extra. calls w' = calls w @ extra \<and> list_all is_render extra \<and> flushes extra = 1)"
proof -
  obtain oc1 s1 w1 where u: "update self w = (oc1, s1, w1)" by (cases "update self w") auto
  from update_result [OF u] obtain extra1 where
    a: "oc1 = Returned" "canvas s1 = canvas self" "artists s1 = artists self"
       "objects w1 = objects w" "n_objects w1 = n_objects w"
       "calls w1 = calls w @ extra1" "list_all is_render extra1" "flushes extra1 = 1"
    by blast
  from assms u a(1) have e: "event_loop n s1 w1 = (oc, self', w')"
    by (simp add: update_with_events_def)
  from event_loop_result [OF e] obtain extra2 where
    b: "oc = Returned" "canvas self' = canvas s1" "artists self' = artists s1"
       "objects w' = objects w1" "n_objects w' = n_objects w1"
       "calls w' = calls w1 @ extra2" "list_all is_render extra2" "flushes extra2 = 0"
    by blast
  have "calls w' = calls w @ (extra1 @ extra2)" using a b by simp
  moreover have "list_all is_render (extra1 @ extra2)" using a b by simp
  moreover have "flushes (extra1 @ extra2) = 1" using a b by simp
  ultimately show ?thesis using a b by metis
qed

section \<open>Properties of the renderer loop\<close>

lemma renderer_loop_frame:
  assumes "d \<noteq> []"
  shows "\<exists>s'. renderer_loop env (d # q) s = renderer_loop env q s' \<and>
     frame_num s' = frame_num s + 1 \<and> ln s' = ln s \<and> fr_number s' = fr_number s \<and>
     data s' = d \<and>
     shown_frames (calls (world s')) = shown_frames (calls (world s)) @ [d] \<and>
     shown_texts (calls (world s')) =
       shown_texts (calls (world s)) @ [''frame: '' @ str_int (frame_num s + 1)] \<and>
     flushes (calls (world s')) = Suc (flushes (calls (world s)))"
proof -
  let ?w2 = "set_text (fr_number s) (''frame: '' @ str_int (frame_num s + 1))
               (set_ydata (ln s) d (world s))"
  obtain oc b w3 where u: "update_with_events (env (frame_num s + 1)) (bm s) ?w2 = (oc, b, w3)"
    by (cases "update_with_events (env (frame_num s + 1)) (bm s) ?w2") auto
  from update_with_events_result [OF u] obtain extra where
    r: "oc = Returned" "calls w3 = calls ?w2 @ extra" "list_all is_render extra"
       "flushes extra = 1"
    by blast
  let ?s' = "s\<lparr>data := d, frame_num := frame_num s + 1, bm := b, world := w3\<rparr>"
  have "renderer_loop env (d # q) s = renderer_loop env q ?s'"
    using assms u r(1) by (simp add: Let_def)
  moreover have "shown_frames (calls (world ?s')) = shown_frames (calls (world s)) @ [d]"
    using r(2) render_shows_nothing [OF r(3)] by (simp add: set_text_def set_ydata_def)
  moreover have "shown_texts (calls (world ?s')) =
       shown_texts (calls (world s)) @ [''frame: '' @ str_int (frame_num s + 1)]"
    using r(2) render_shows_nothing [OF r(3)] by (simp add: set_text_def set_ydata_def)
  moreover have "flushes (calls (world ?s')) = Suc (flushes (calls (world s)))"
    using r(2) r(4) by (simp add: set_text_def set_ydata_def)
  ultimately show ?thesis by (intro exI [of _ ?s']) simp
qed

lemma renderer_loop_frames:
  assumes "\<forall>f\<in>set frames. f \<noteq> []"
  shows "\<exists>s'. renderer_loop env (frames @ q) s = renderer_loop env q s' \<and>
     frame_num s' = frame_num s + int (length frames) \<and>
     ln s' = ln s \<and> fr_number s' = fr_number s \<and>
     shown_frames (calls (world s')) = shown_frames (calls (world s)) @ frames \<and>
     shown_texts (calls (world s')) =
       shown_texts (calls (world s)) @
         map (\<lambda>i. ''frame: '' @ str_int (frame_num s + 1 + int i)) [0..<length frames] \<and>
     flushes (calls (world s')) = flushes (calls (world s)) + length frames"
  using assms
proof (induction frames arbitrary: s)
  case Nil
  show ?case by (rule exI [of _ s]) simp
next
  case (Cons d frames)
  from Cons.prems have d: "d \<noteq> []" and rest: "\<forall>f\<in>set frames. f \<noteq> []" by simp_all
  from renderer_loop_frame [OF d, of env "frames @ q" s] obtain s1 where
    a: "renderer_loop env (d # frames @ q) s = renderer_loop env (frames @ q) s1"
       "frame_num s1 = frame_num s + 1" "ln s1 = ln s" "fr_number s1 = fr_number s"
       "shown_frames (calls (world s1)) = shown_frames (calls (world s)) @ [d]"
       "shown_texts (calls (world s1)) =
          shown_texts (calls (world s)) @ [''frame: '' @ str_int (frame_num s + 1)]"
       "flushes (calls (world s1)) = Suc (flushes (calls (world s)))"
    by blast
  from Cons.IH [OF rest, of s1] obtain s' where
    b: "renderer_loop env (frames @ q) s1 = renderer_loop env q s'"
       "frame_num s' = frame_num s1 + int (length frames)"
       "ln s' = ln s1" "fr_number s' = fr_number s1"
       "shown_frames (calls (world s')) = shown_frames (calls (world s1)) @ frames"
       "shown_texts (calls (world s')) =
          shown_texts (calls (world s1)) @
            map (\<lambda>i. ''frame: '' @ str_int (frame_num s1 + 1 + int i)) [0..<length frames]"
       "flushes (calls (world s')) = flushes (calls (world s1)) + length frames"
    by blast
  have m: "map (\<lambda>i. ''frame: '' @ str_int (frame_num s + 1 + int i)) [0..<length (d # frames)] =
        (''frame: '' @ str_int (frame_num s + 1)) #
        map (\<lambda>i. ''frame: '' @ str_int (frame_num s1 + 1 + int i)) [0..<length frames]"
    by (simp add: a(2) upt_conv_Cons map_Suc_upt [symmetric] del: upt_Suc) (simp add: add.commute add.left_commute)
  show ?case
    apply (rule exI [of _ s'])
    using a b m by simp
qed

lemma renderer_loop_sentinel:
  "\<exists>s'. renderer_loop env ([] # rest) s = Exited Returned s' rest \<and>
     frame_num s' = frame_num s + 1 \<and>
     calls (world s') = calls (world s) @ [Print ''Breaking...'', Close] \<and>
     objects (world s') = objects (world s)"
  by (simp add: Let_def)

lemma case_event_loop:
  "(case event_loop n b w of
      (Raised e, b1, w1) \<Rightarrow> F e b1 w1
    | (Returned, b1, w1) \<Rightarrow> G b1 w1) =
   G (fst (snd (event_loop n b w))) (snd (snd (event_loop n b w)))"
proof -
  obtain oc b1 w1 where e: "event_loop n b w = (oc, b1, w1)"
    by (cases "event_loop n b w") auto
  from event_loop_result [OF e] have "oc = Returned" by simp
  with e show ?thesis by simp
qed

lemma event_loop_trace:
  "shown_frames (calls (snd (snd (event_loop n b w)))) = shown_frames (calls w) \<and>
   shown_texts (calls (snd (snd (event_loop n b w)))) = shown_texts (calls w) \<and>
   flushes (calls (snd (snd (event_loop n b w)))) = flushes (calls w) \<and>
   objects (snd (snd (event_loop n b w))) = objects w \<and>
   canvas (fst (snd (event_loop n b w))) = canvas b \<and>
   artists (fst (snd (event_loop n b w))) = artists b"
proof -
  obtain oc b1 w1 where e: "event_loop n b w = (oc, b1, w1)"
    by (cases "event_loop n b w") auto
  from event_loop_result [OF e] obtain extra where
    "calls w1 = calls w @ extra" "list_all is_render extra" "flushes extra = 0"
    "objects w1 = objects w" "canvas b1 = canvas b" "artists b1 = artists b"
    by blast
  with e render_shows_nothing [of extra] show ?thesis by simp
qed

lemma animated_plot_process_setup:
  "\<exists>s0. animated_plot_process env cv q n = renderer_loop env q s0 \<and>
     frame_num s0 = 0 \<and> ln s0 = 0 \<and> fr_number s0 = 1 \<and>
     shown_frames (calls (world s0)) = [] \<and>
     shown_texts (calls (world s0)) = [] \<and>
     flushes (calls (world s0)) = 0 \<and>
     canvas (bm s0) = cv \<and> artists (bm s0) = [0, 1] \<and>
     animated (objects (world s0) 0) \<and> animated (objects (world s0) 1) \<and>
     payload (objects (world s0) 1) = Label ''0''"
  apply (simp add: animated_plot_process_def Let_def new_artist_def fresh_world_def emit_def
      BlitManager_def add_artist_def set_animated_def mpl_connect_def case_event_loop)
  apply (rule exI, rule conjI, rule refl)
  apply (simp add: event_loop_trace)
  done

section \<open>The redraw manager\<close>

text \<open>
  Claim C3. After a full redraw from the managed canvas, any further sequence of \<open>update\<close>
  calls and full redraws from that canvas runs without a raise and takes exactly one
  snapshot per full redraw: the number of captures grows by one for the first redraw and by
  one for each later redraw, and \<open>_bg\<close> is the snapshot taken last. Across \<open>n\<close>
  consecutive \<open>update\<close> calls after a redraw no snapshot is taken, \<open>_bg\<close> stays the
  snapshot of that redraw, and each of the \<open>n\<close> calls restores that same snapshot. Two
  consecutive full redraws take exactly two snapshots and restore nothing in between.
\<close>

theorem snapshot_once_per_full_redraw:
  assumes "\<forall>op\<in>set ops. op = UpdateCall \<or> op = FullRedraw (canvas self)"
  shows "(\<exists>self' w'. run_ops (FullRedraw (canvas self) # ops) self w = (Returned, self', w') \<and>
            captures w' = captures w + 1 + count_list ops (FullRedraw (canvas self)) \<and>
            bg self' = Some (Region (captures w' - 1))) \<and>
         (\<exists>self' w'. run_ops (FullRedraw (canvas self) # replicate n UpdateCall) self w =
              (Returned, self', w') \<and>
            bg self' = Some (Region (captures w)) \<and>
            captures w' = captures w + 1 \<and>
            restored (calls w') = restored (calls w) @ replicate n (Region (captures w))) \<and>
         (\<exists>self' w'. run_ops [FullRedraw (canvas self), FullRedraw (canvas self)] self w =
              (Returned, self', w') \<and>
            captures w' = captures w + 2 \<and>
            restored (calls w') = restored (calls w))"
proof -
  let ?cv = "canvas self"
  let ?s1 = "self\<lparr>bg := Some (Region (captures w))\<rparr>"
  let ?w1 = "draw_each (figure ?cv) (artists self) (emit (CopyFromBbox ?cv (figure ?cv)) w)"
  have first: "on_draw (Some (DrawEvent ?cv)) self w = (Returned, ?s1, ?w1)"
    by (simp add: on_draw_managed)
  have b1: "bg ?s1 = Some (Region (captures w))" by simp
  have c1: "captures ?w1 = Suc (captures w)" by (simp add: captures_emit)
  have r1: "restored (calls ?w1) = restored (calls w)" by (simp add: draw_each_calls)
  have A: "\<exists>self' w'. run_ops (FullRedraw ?cv # ops) self w = (Returned, self', w') \<and>
            captures w' = captures w + 1 + count_list ops (FullRedraw ?cv) \<and>
            bg self' = Some (Region (captures w' - 1))"
  proof -
    from assms have all: "\<forall>op\<in>set ops. op = UpdateCall \<or> op = FullRedraw (canvas ?s1)" by simp
    from redraws_and_updates [OF b1 all, of ?w1] obtain self' w' where
      r: "run_ops ops ?s1 ?w1 = (Returned, self', w')"
      and c: "captures w' = captures ?w1 + count_list ops (FullRedraw ?cv)"
      and b: "bg self' = (if count_list ops (FullRedraw ?cv) = 0
                then Some (Region (captures w)) else Some (Region (captures w' - 1)))"
      by auto
    have "run_ops (FullRedraw ?cv # ops) self w = (Returned, self', w')"
      using first r by simp
    moreover have c': "captures w' = captures w + 1 + count_list ops (FullRedraw ?cv)"
      using c c1 by simp
    moreover have "bg self' = Some (Region (captures w' - 1))"
      using b c' by simp
    ultimately show ?thesis by blast
  qed
  have B: "\<exists>self' w'. run_ops (FullRedraw ?cv # replicate n UpdateCall) self w =
              (Returned, self', w') \<and>
            bg self' = Some (Region (captures w)) \<and>
            captures w' = captures w + 1 \<and>
            restored (calls w') = restored (calls w) @ replicate n (Region (captures w))"
  proof -
    from update_keeps_snapshot [OF b1, of n ?w1] obtain w' where
      r: "run_ops (replicate n UpdateCall) ?s1 ?w1 = (Returned, ?s1, w')"
      and c: "captures w' = captures ?w1"
      and s: "restored (calls w') = restored (calls ?w1) @ replicate n (Region (captures w))"
      by blast
    have "run_ops (FullRedraw ?cv # replicate n UpdateCall) self w = (Returned, ?s1, w')"
      using first r by simp
    moreover have "captures w' = captures w + 1" using c c1 by simp
    moreover have "restored (calls w') = restored (calls w) @ replicate n (Region (captures w))"
      using s r1 by simp
    ultimately show ?thesis using b1 by blast
  qed
  have C: "\<exists>self' w'. run_ops [FullRedraw ?cv, FullRedraw ?cv] self w = (Returned, self', w') \<and>
            captures w' = captures w + 2 \<and> restored (calls w') = restored (calls w)"
    by (simp add: on_draw_managed captures_emit draw_each_calls)
  from A B C show ?thesis by blast
qed

theorem snapshot_once_per_full_redraw_witness:
  "list_all
     (\<lambda>op. op = UpdateCall \<or>
        op = FullRedraw (canvas \<lparr>canvas = Canvas 0 0, bg = None, artists = [0], cid = Some 0\<rparr>))
     [UpdateCall, FullRedraw (Canvas 0 0), UpdateCall] \<and>
   (\<exists>self' w'.
      run_ops [FullRedraw (Canvas 0 0), UpdateCall, FullRedraw (Canvas 0 0), UpdateCall]
        \<lparr>canvas = Canvas 0 0, bg = None, artists = [0], cid = Some 0\<rparr> (fresh_world :: nat world) =
        (Returned, self', w') \<and>
      captures w' = 2 \<and> bg self' = Some (Region 1))"
proof -
  let ?m = "\<lparr>canvas = Canvas 0 0, bg = None, artists = [0], cid = Some 0\<rparr>"
  let ?ops = "[UpdateCall, FullRedraw (Canvas 0 0), UpdateCall]"
  have h: "\<forall>op\<in>set ?ops. op = UpdateCall \<or> op = FullRedraw (canvas ?m)" by simp
  have z: "captures (fresh_world :: nat world) = 0" by (simp add: captures_def fresh_world_def)
  from snapshot_once_per_full_redraw [OF h, of "fresh_world :: nat world" 0]
  obtain self' w' where
    r: "run_ops (FullRedraw (canvas ?m) # ?ops) ?m (fresh_world :: nat world) = (Returned, self', w')"
    and c: "captures w' = captures (fresh_world :: nat world) + 1 + count_list ?ops (FullRedraw (canvas ?m))"
    and b: "bg self' = Some (Region (captures w' - 1))"
    by blast
  from c z have c2: "captures w' = 2" by simp
  from b c2 have "bg self' = Some (Region 1)" by simp
  moreover from r have "run_ops (FullRedraw (Canvas 0 0) # ?ops) ?m (fresh_world :: nat world) =
      (Returned, self', w')" by simp
  ultimately show ?thesis using c2 by auto
qed

text \<open>
  Claim C4. When a snapshot \<open>b\<close> exists, \<open>update\<close> returns normally, leaves the manager
  as it was, and makes exactly these toolkit calls, in this order: restore \<open>b\<close>, draw each
  artist of \<open>_artists\<close> in list order (the order of registration, since \<open>add_artist\<close>
  appends), blit the bounding box of the figure, flush the event loop.
\<close>

theorem update_blit_sequence:
  "\<exists>w'. update (self\<lparr>bg := Some b\<rparr>) w = (Returned, self\<lparr>bg := Some b\<rparr>, w') \<and>
        calls w' =
          calls w @
          RestoreRegion (canvas self) b #
          map (\<lambda>a. DrawArtist (figure (canvas self)) a (payload (objects w a))) (artists self) @
          [Blit (canvas self) (figure (canvas self)), FlushEvents (canvas self)] \<and>
        objects w' = objects w"
  by (simp add: update_Some draw_each_calls)

text \<open>
  Claim C5. If the artist's figure is not the figure of the managed canvas, \<open>add_artist\<close>
  raises and leaves the manager and the toolkit state exactly as they were: no snapshot is
  taken, the list of artists and the artist are unchanged. Otherwise it returns normally
  with the artist appended to the list and marked animated; the artist's other attributes
  and all other artists are unchanged, the only toolkit call is \<open>set_animated(True)\<close>,
  and no snapshot is taken.
\<close>

theorem add_artist_checks_figure:
  "(art_figure (objects w art) \<noteq> figure (canvas self) \<longrightarrow>
      add_artist art self w = (Raised RuntimeError, self, w)) \<and>
   (art_figure (objects w art) = figure (canvas self) \<longrightarrow>
      (\<exists>w'. add_artist art self w = (Returned, self\<lparr>artists := artists self @ [art]\<rparr>, w') \<and>
            animated (objects w' art) \<and>
            art_figure (objects w' art) = art_figure (objects w art) \<and>
            payload (objects w' art) = payload (objects w art) \<and>
            (\<forall>a. a \<noteq> art \<longrightarrow> objects w' a = objects w a) \<and>
            calls w' = calls w @ [SetAnimated art True] \<and>
            captures w' = captures w))"
  by (simp add: add_artist_def set_animated_def captures_def)

theorem add_artist_checks_figure_witness:
  "art_figure (objects (fresh_world :: nat world) 0) \<noteq>
     figure (canvas \<lparr>canvas = Canvas 0 1, bg = None, artists = [], cid = None\<rparr>) \<and>
   add_artist 0 \<lparr>canvas = Canvas 0 1, bg = None, artists = [], cid = None\<rparr>
       (fresh_world :: nat world) =
     (Raised RuntimeError, \<lparr>canvas = Canvas 0 1, bg = None, artists = [], cid = None\<rparr>,
      fresh_world) \<and>
   art_figure (objects (fresh_world :: nat world) 0) =
     figure (canvas \<lparr>canvas = Canvas 0 0, bg = None, artists = [], cid = None\<rparr>) \<and>
   (\<exists>w'. add_artist 0 \<lparr>canvas = Canvas 0 0, bg = None, artists = [], cid = None\<rparr>
       (fresh_world :: nat world) =
       (Returned, \<lparr>canvas = Canvas 0 0, bg = None, artists = [0], cid = None\<rparr>, w') \<and>
     animated (objects w' 0) \<and> calls w' = [SetAnimated 0 True])"
proof -
  let ?m1 = "\<lparr>canvas = Canvas 0 1, bg = None, artists = [], cid = None\<rparr>"
  let ?m0 = "\<lparr>canvas = Canvas 0 0, bg = None, artists = [], cid = None\<rparr>"
  let ?w = "fresh_world :: nat world"
  have h1: "art_figure (objects ?w 0) \<noteq> figure (canvas ?m1)" by (simp add: fresh_world_def)
  have h0: "art_figure (objects ?w 0) = figure (canvas ?m0)" by (simp add: fresh_world_def)
  from add_artist_checks_figure [of ?w 0 ?m1] h1
  have a: "add_artist 0 ?m1 ?w = (Raised RuntimeError, ?m1, ?w)" by blast
  from add_artist_checks_figure [of ?w 0 ?m0] h0
  obtain w' where "add_artist 0 ?m0 ?w = (Returned, ?m0\<lparr>artists := artists ?m0 @ [0]\<rparr>, w')"
    "animated (objects w' 0)" "calls w' = calls ?w @ [SetAnimated 0 True]" by blast
  then have b: "\<exists>w'. add_artist 0 ?m0 ?w =
       (Returned, \<lparr>canvas = Canvas 0 0, bg = None, artists = [0], cid = None\<rparr>, w') \<and>
     animated (objects w' 0) \<and> calls w' = [SetAnimated 0 True]"
    by (auto simp: fresh_world_def)
  from h1 a h0 b show ?thesis by blast
qed




text \<open>
  Claim C7. On a full-redraw event from the managed canvas \<open>on_draw\<close> returns normally,
  takes one new snapshot of the figure's bounding box and stores it in \<open>_bg\<close>, and
  immediately afterwards draws every artist of \<open>_artists\<close>, in list order, as it is in
  the store; these are its only toolkit calls.
\<close>

theorem on_draw_captures_and_redraws:
  "\<exists>w'. on_draw (Some (DrawEvent (canvas self))) self w =
          (Returned, self\<lparr>bg := Some (Region (captures w))\<rparr>, w') \<and>
        captures w' = Suc (captures w) \<and>
        calls w' =
          calls w @
          CopyFromBbox (canvas self) (figure (canvas self)) #
          map (\<lambda>a. DrawArtist (figure (canvas self)) a (payload (objects w a))) (artists self) \<and>
        objects w' = objects w"
  by (simp add: on_draw_managed draw_each_calls captures_emit)

lemma blits_append [simp]: "blits (xs @ ys) = blits xs + blits ys"
  by (induction xs rule: blits.induct) simp_all

lemma blits_draws [simp]: "blits (map (\<lambda>a. DrawArtist f a (g a)) as) = 0"
  by (induction as) simp_all

text \<open>
  Claim C9. Called without a snapshot, \<open>update\<close> takes one, draws the artists and
  flushes the event loop, and makes no \<open>blit\<close> call. Called with a snapshot it takes none
  and makes exactly one \<open>blit\<close> call. Either way it returns normally and a snapshot
  exists afterwards.
\<close>

theorem update_without_snapshot_does_not_blit:
  "(\<exists>w'. update (self\<lparr>bg := None\<rparr>) w =
            (Returned, self\<lparr>bg := Some (Region (captures w))\<rparr>, w') \<and>
          calls w' =
            calls w @
            CopyFromBbox (canvas self) (figure (canvas self)) #
            map (\<lambda>a. DrawArtist (figure (canvas self)) a (payload (objects w a))) (artists self) @
            [FlushEvents (canvas self)] \<and>
          captures w' = Suc (captures w) \<and>
          blits (calls w') = blits (calls w)) \<and>
   (\<exists>w'. update (self\<lparr>bg := Some b\<rparr>) w = (Returned, self\<lparr>bg := Some b\<rparr>, w') \<and>
          captures w' = captures w \<and>
          blits (calls w') = Suc (blits (calls w))) \<and>
   (\<exists>self' w'. update self w = (Returned, self', w') \<and> bg self' \<noteq> None)"
proof -
  have A: "\<exists>w'. update (self\<lparr>bg := None\<rparr>) w =
            (Returned, self\<lparr>bg := Some (Region (captures w))\<rparr>, w') \<and>
          calls w' =
            calls w @
            CopyFromBbox (canvas self) (figure (canvas self)) #
            map (\<lambda>a. DrawArtist (figure (canvas self)) a (payload (objects w a))) (artists self) @
            [FlushEvents (canvas self)] \<and>
          captures w' = Suc (captures w) \<and>
          blits (calls w') = blits (calls w)"
    by (simp add: update_None draw_each_calls captures_emit)
  have B: "\<exists>w'. update (self\<lparr>bg := Some b\<rparr>) w = (Returned, self\<lparr>bg := Some b\<rparr>, w') \<and>
          captures w' = captures w \<and>
          blits (calls w') = Suc (blits (calls w))"
    by (simp add: update_Some draw_each_calls captures_emit)
  have C: "\<exists>self' w'. update self w = (Returned, self', w') \<and> bg self' \<noteq> None"
  proof (cases "bg self")
    case None
    then show ?thesis by (simp add: update_None)
  next
    case (Some r)
    then show ?thesis by (simp add: update_Some)
  qed
  from A B C show ?thesis by blast
qed

text \<open>
  Claim C10. \<open>on_draw\<close> called with \<open>None\<close> for the event makes no identity check: for
  every manager and toolkit state it returns normally, having taken a snapshot and drawn
  the artists in list order. So \<open>update\<close> on its path without a snapshot never raises.
\<close>

theorem on_draw_without_event_never_raises:
  "(\<exists>w'. on_draw None self w = (Returned, self\<lparr>bg := Some (Region (captures w))\<rparr>, w') \<and>
          captures w' = Suc (captures w) \<and>
          calls w' =
            calls w @
            CopyFromBbox (canvas self) (figure (canvas self)) #
            map (\<lambda>a. DrawArtist (figure (canvas self)) a (payload (objects w a))) (artists self)) \<and>
   fst (update (self\<lparr>bg := None\<rparr>) w) = Returned"
  by (simp add: on_draw_None update_None draw_each_calls captures_emit)

section \<open>The renderer and the producer\<close>

lemma animated_plot_process_frames:
  assumes "\<forall>f\<in>set frames. f \<noteq> []"
  shows "\<exists>s. animated_plot_process env cv (frames @ q) n = renderer_loop env q s \<and>
     frame_num s = int (length frames) \<and>
     shown_frames (calls (world s)) = frames \<and>
     shown_texts (calls (world s)) =
       map (\<lambda>j. ''frame: '' @ str_int (int j)) [1..<Suc (length frames)] \<and>
     flushes (calls (world s)) = length frames \<and>
     fr_number s = 1 \<and>
     (frames = [] \<longrightarrow> payload (objects (world s) 1) = Label ''0'')"
proof -
  from animated_plot_process_setup [of env cv "frames @ q" n] obtain s0 where
    a: "animated_plot_process env cv (frames @ q) n = renderer_loop env (frames @ q) s0"
       "frame_num s0 = 0" "fr_number s0 = 1"
       "shown_frames (calls (world s0)) = []"
       "shown_texts (calls (world s0)) = []"
       "flushes (calls (world s0)) = 0"
       "payload (objects (world s0) 1) = Label ''0''"
    by blast
  show ?thesis
  proof (cases "frames = []")
    case True
    with a show ?thesis by (intro exI [of _ s0]) simp
  next
    case False
    from renderer_loop_frames [OF assms, of env q s0] obtain s where
      b: "renderer_loop env (frames @ q) s0 = renderer_loop env q s"
         "frame_num s = frame_num s0 + int (length frames)"
         "fr_number s = fr_number s0"
         "shown_frames (calls (world s)) = shown_frames (calls (world s0)) @ frames"
         "shown_texts (calls (world s)) =
            shown_texts (calls (world s0)) @
              map (\<lambda>i. ''frame: '' @ str_int (frame_num s0 + 1 + int i)) [0..<length frames]"
         "flushes (calls (world s)) = flushes (calls (world s0)) + length frames"
      by blast
    have m: "map (\<lambda>j. ''frame: '' @ str_int (int j)) [1..<Suc (length frames)] =
          map (\<lambda>i. ''frame: '' @ str_int (0 + 1 + int i)) [0..<length frames]"
    proof -
      have "[1..<Suc (length frames)] = map Suc [0..<length frames]"
        by (simp add: map_Suc_upt del: upt_Suc)
      then show ?thesis by (simp add: comp_def add.commute del: upt_Suc)
    qed
    show ?thesis
      using a b m False by (intro exI [of _ s]) simp
  qed
qed

lemma str_int_small: "str_int 0 = ''0''" "str_int 1 = ''1''" "str_int 2 = ''2''"
  by code_simp+

lemma valid_frames_nonempty:
  "0 < n \<Longrightarrow> \<forall>f\<in>set frames. length f = n \<Longrightarrow> \<forall>f\<in>set frames. f \<noteq> []"
  by auto

text \<open>
  Claim C1, as the code has it. \<open>frame_num\<close> is incremented once per vector read from the
  queue, before the test for the sentinel. For frames of length \<open>n_samples > 0\<close>: after
  \<open>k\<close> frames, while the renderer waits for the next item, the counter is \<open>k\<close> and the
  label has been set to \<open>frame: 1\<close>, ..., \<open>frame: k\<close> in turn; when the sentinel follows
  the \<open>k\<close> frames the renderer returns with the counter at \<open>k + 1\<close>, the label having
  been set for exactly those \<open>k\<close> frames. When the sentinel comes first the renderer
  returns with the counter at \<open>1\<close> and the label still \<open>0\<close>.
\<close>

theorem frame_counter_counts_reads:
  assumes "0 < n_samples" and "\<forall>f\<in>set frames. length f = n_samples"
  shows "(\<exists>s. animated_plot_process env cv frames n_samples = Blocked s \<and>
            frame_num s = int (length frames) \<and>
            shown_texts (calls (world s)) =
              map (\<lambda>j. ''frame: '' @ str_int (int j)) [1..<Suc (length frames)]) \<and>
         (\<exists>s. animated_plot_process env cv (frames @ [] # rest) n_samples =
              Exited Returned s rest \<and>
            frame_num s = int (length frames) + 1 \<and>
            shown_texts (calls (world s)) =
              map (\<lambda>j. ''frame: '' @ str_int (int j)) [1..<Suc (length frames)]) \<and>
         (\<exists>s. animated_plot_process env cv ([] # rest) n_samples = Exited Returned s rest \<and>
            frame_num s = 1 \<and>
            shown_texts (calls (world s)) = [] \<and>
            payload (objects (world s) (fr_number s)) = Label ''0'')"
proof -
  from assms have ne: "\<forall>f\<in>set frames. f \<noteq> []" by (rule valid_frames_nonempty)
  have A: "\<exists>s. animated_plot_process env cv frames n_samples = Blocked s \<and>
            frame_num s = int (length frames) \<and>
            shown_texts (calls (world s)) =
              map (\<lambda>j. ''frame: '' @ str_int (int j)) [1..<Suc (length frames)]"
    using animated_plot_process_frames [OF ne, of env cv "[]" n_samples] by auto
  have B: "\<exists>s. animated_plot_process env cv (frames @ [] # rest) n_samples =
              Exited Returned s rest \<and>
            frame_num s = int (length frames) + 1 \<and>
            shown_texts (calls (world s)) =
              map (\<lambda>j. ''frame: '' @ str_int (int j)) [1..<Suc (length frames)]"
  proof -
    from animated_plot_process_frames [OF ne, of env cv "[] # rest" n_samples] obtain s1 where
      a: "animated_plot_process env cv (frames @ [] # rest) n_samples =
            renderer_loop env ([] # rest) s1"
         "frame_num s1 = int (length frames)"
         "shown_texts (calls (world s1)) =
            map (\<lambda>j. ''frame: '' @ str_int (int j)) [1..<Suc (length frames)]"
      by blast
    from renderer_loop_sentinel [of env rest s1] obtain s where
      b: "renderer_loop env ([] # rest) s1 = Exited Returned s rest"
         "frame_num s = frame_num s1 + 1"
         "calls (world s) = calls (world s1) @ [Print ''Breaking...'', Close]"
      by blast
    from a b show ?thesis by (intro exI [of _ s]) simp
  qed
  have C: "\<exists>s. animated_plot_process env cv ([] # rest) n_samples = Exited Returned s rest \<and>
            frame_num s = 1 \<and>
            shown_texts (calls (world s)) = [] \<and>
            payload (objects (world s) (fr_number s)) = Label ''0''"
  proof -
    have e: "\<forall>f\<in>set ([] :: 'a list list). f \<noteq> []" by simp
    from animated_plot_process_frames [OF e, of env cv "[] # rest" n_samples] obtain s1 where
      a: "animated_plot_process env cv ([] # rest) n_samples = renderer_loop env ([] # rest) s1"
         "frame_num s1 = 0" "shown_texts (calls (world s1)) = []" "fr_number s1 = 1"
         "payload (objects (world s1) 1) = Label ''0''"
      by auto
    have "renderer_loop env ([] # rest) s1 =
        Exited Returned
          (s1\<lparr>data := [], frame_num := frame_num s1 + 1,
              world := emit Close (emit (Print ''Breaking...'') (world s1))\<rparr>) rest"
      by (simp add: Let_def)
    with a show ?thesis by simp
  qed
  from A B C show ?thesis by blast
qed

theorem frame_counter_counts_reads_witness:
  "(0::nat) < 2 \<and> map length [[5, 6 :: nat]] = [2] \<and>
   (\<exists>s. animated_plot_process no_redraws (Canvas 0 0) [[5, 6 :: nat], [], [7, 8]] 2 =
          Exited Returned s [[7, 8]] \<and>
        frame_num s = 2 \<and> shown_texts (calls (world s)) = [''frame: 1''])"
proof -
  have h1: "(0::nat) < 2" by simp
  have h2: "\<forall>f\<in>set [[5, 6 :: nat]]. length f = 2" by simp
  from frame_counter_counts_reads [OF h1 h2, of no_redraws "Canvas 0 0" "[[7, 8]]"]
  obtain s where
    "animated_plot_process no_redraws (Canvas 0 0) ([[5, 6 :: nat]] @ [] # [[7, 8]]) 2 =
       Exited Returned s [[7, 8]]"
    "frame_num s = int (length [[5, 6 :: nat]]) + 1"
    "shown_texts (calls (world s)) =
       map (\<lambda>j. ''frame: '' @ str_int (int j)) [1..<Suc (length [[5, 6 :: nat]])]"
    by blast
  then have "animated_plot_process no_redraws (Canvas 0 0) [[5, 6 :: nat], [], [7, 8]] 2 =
       Exited Returned s [[7, 8]] \<and>
     frame_num s = 2 \<and> shown_texts (calls (world s)) = [''frame: 1'']"
    by (simp add: str_int_small)
  with h1 show ?thesis by auto
qed

text \<open>
  Claim C1 as stated says that the counter is \<open>0\<close> when the sentinel is the first item.
  With a queue holding only the sentinel the renderer exits with \<open>frame_num = 1\<close>.
\<close>

theorem sentinel_first_counter_is_one:
  "exited (animated_plot_process no_redraws (Canvas 0 0) ([[]] :: nat list list) 4) \<and>
   frame_num (final_locals (animated_plot_process no_redraws (Canvas 0 0) ([[]] :: nat list list) 4)) = 1"
  by (simp add: animated_plot_process_def Let_def new_artist_def fresh_world_def emit_def
      BlitManager_def add_artist_def set_animated_def mpl_connect_def event_loop_def
      no_redraws_def)

text \<open>
  Claim C2. For any \<open>k\<close> frames of length \<open>n_samples > 0\<close> followed by the sentinel and
  by anything else, the renderer returns normally; it has handed exactly those \<open>k\<close>
  frames to the line, in order, and called \<open>update\<close> (one flush each) \<open>k\<close> times; the
  items after the sentinel are left unread; and its last two toolkit calls are the print of
  \<open>Breaking...\<close> and \<open>plt.close()\<close>. This holds however many redraws the toolkit
  delivers.
\<close>

theorem sentinel_ends_renderer:
  assumes "0 < n_samples" and "\<forall>f\<in>set frames. length f = n_samples"
  shows "\<exists>s pre. animated_plot_process env cv (frames @ [] # rest) n_samples =
              Exited Returned s rest \<and>
            shown_frames (calls (world s)) = frames \<and>
            flushes (calls (world s)) = length frames \<and>
            calls (world s) = pre @ [Print ''Breaking...'', Close]"
proof -
  from assms have ne: "\<forall>f\<in>set frames. f \<noteq> []" by (rule valid_frames_nonempty)
  from animated_plot_process_frames [OF ne, of env cv "[] # rest" n_samples] obtain s1 where
    a: "animated_plot_process env cv (frames @ [] # rest) n_samples =
          renderer_loop env ([] # rest) s1"
       "shown_frames (calls (world s1)) = frames"
       "flushes (calls (world s1)) = length frames"
    by blast
  from renderer_loop_sentinel [of env rest s1] obtain s where
    b: "renderer_loop env ([] # rest) s1 = Exited Returned s rest"
       "calls (world s) = calls (world s1) @ [Print ''Breaking...'', Close]"
    by blast
  from a b show ?thesis by (intro exI [of _ s] exI [of _ "calls (world s1)"]) simp
qed

theorem sentinel_ends_renderer_witness:
  "(0::nat) < 2 \<and> map length [[5, 6 :: nat], [1, 2]] = [2, 2] \<and>
   (\<exists>s pre. animated_plot_process no_redraws (Canvas 0 0) [[5, 6 :: nat], [1, 2], [], [7, 8]] 2 =
          Exited Returned s [[7, 8]] \<and>
        shown_frames (calls (world s)) = [[5, 6], [1, 2]] \<and>
        flushes (calls (world s)) = 2 \<and>
        calls (world s) = pre @ [Print ''Breaking...'', Close])"
proof -
  have h1: "(0::nat) < 2" by simp
  have h2: "\<forall>f\<in>set [[5, 6 :: nat], [1, 2]]. length f = 2" by simp
  from sentinel_ends_renderer [OF h1 h2, of no_redraws "Canvas 0 0" "[[7, 8]]"]
  obtain s pre where
    "animated_plot_process no_redraws (Canvas 0 0) ([[5, 6 :: nat], [1, 2]] @ [] # [[7, 8]]) 2 =
       Exited Returned s [[7, 8]]"
    "shown_frames (calls (world s)) = [[5, 6], [1, 2]]"
    "flushes (calls (world s)) = length [[5, 6 :: nat], [1, 2]]"
    "calls (world s) = pre @ [Print ''Breaking...'', Close]"
    by blast
  then have "animated_plot_process no_redraws (Canvas 0 0) [[5, 6 :: nat], [1, 2], [], [7, 8]] 2 =
          Exited Returned s [[7, 8]] \<and>
        shown_frames (calls (world s)) = [[5, 6], [1, 2]] \<and>
        flushes (calls (world s)) = 2 \<and>
        calls (world s) = pre @ [Print ''Breaking...'', Close]"
    by simp
  with h1 show ?thesis by auto
qed

lemma length_random_vector [simp]: "length (random_vector rng j n) = n"
  by (simp add: random_vector_def)

lemma produce_result:
  "produce rng n js p =
     p\<lparr>sent := sent p @ map (\<lambda>j. random_vector rng j n) js,
       actions := actions p @ concat (map (\<lambda>j. [Put (random_vector rng j n), PrintElapsed]) js)\<rparr>"
  by (induction js arbitrary: p) (simp_all add: put_def act_def Let_def)

lemma str_int_100: "str_int 100 = ''100''" "str_int (exitcode Returned) = ''0''"
  by code_simp+

text \<open>
  Claim C8. \<open>main\<close> returns. It creates the queue and starts the renderer with
  \<open>n_samples = 400\<close>; it then puts 100 random vectors, each of length 400, one at a time
  (each put followed by the print of the elapsed time), then the empty tuple, then joins
  the renderer and prints its exit code, which is \<open>0\<close>, and the closing message. The
  renderer has shown exactly those 100 vectors and the label last read \<open>frame: 100\<close>.
\<close>

theorem main_sends_frames_then_sentinel:
  "\<exists>p s. main rng env cv = Some (p, s) \<and>
     sent p = map (\<lambda>j. random_vector rng j 400) [0..<100] @ [[]] \<and>
     map length (sent p) = replicate 100 400 @ [0] \<and>
     actions p =
       [NewQueue, StartProcess 400] @
       concat (map (\<lambda>j. [Put (random_vector rng j 400), PrintElapsed]) [0..<100]) @
       [Put [], Join, PrintLine ''0'', PrintLine ''finished animate process''] \<and>
     shown_frames (calls (world s)) = map (\<lambda>j. random_vector rng j 400) [0..<100] \<and>
     last (shown_texts (calls (world s))) = ''frame: 100''"
proof -
  define js :: "nat list" where "js = [0..<100]"
  define frames where "frames = map (\<lambda>j. random_vector rng j 400) js"
  have len: "length js = 100" by (simp add: js_def)
  have lenf: "length frames = 100" by (simp add: frames_def len)
  have ne: "\<forall>f\<in>set frames. f \<noteq> []"
  proof
    fix f assume "f \<in> set frames"
    then have "length f = 400" by (auto simp: frames_def)
    then show "f \<noteq> []" by auto
  qed
  from animated_plot_process_frames [OF ne, of env cv "[[]]" 400] obtain s1 where
    a: "animated_plot_process env cv (frames @ [[]]) 400 = renderer_loop env [[]] s1"
       "shown_frames (calls (world s1)) = frames"
       "shown_texts (calls (world s1)) =
          map (\<lambda>j. ''frame: '' @ str_int (int j)) [1..<Suc (length frames)]"
    by blast
  from renderer_loop_sentinel [of env "[]" s1] obtain s where
    b: "renderer_loop env [[]] s1 = Exited Returned s []"
       "calls (world s) = calls (world s1) @ [Print ''Breaking...'', Close]"
    by blast
  let ?p = "\<lparr>sent = frames @ [[]],
             actions = [NewQueue, StartProcess 400] @
               concat (map (\<lambda>j. [Put (random_vector rng j 400), PrintElapsed]) js) @
               [Put [], Join, PrintLine ''0'', PrintLine ''finished animate process'']\<rparr>"
  have run: "animated_plot_process env cv (frames @ [[]]) 400 = Exited Returned s []"
    using a(1) b(1) by simp
  have m: "main rng env cv = Some (?p, s)"
    unfolding main_def Let_def js_def [symmetric]
    by (simp add: produce_result put_def act_def frames_def [symmetric] run str_int_100)
  have l: "map length (frames @ [[]]) = replicate 100 400 @ [0]"
    by (simp add: frames_def comp_def map_replicate_const len)
  have sf: "shown_frames (calls (world s)) = frames" using a(2) b(2) by simp
  have "shown_texts (calls (world s)) = map (\<lambda>j. ''frame: '' @ str_int (int j)) [1..<Suc 100]"
    using a(3) b(2) lenf by simp
  then have "last (shown_texts (calls (world s))) = ''frame: '' @ str_int (int 100)"
    by (simp add: last_map del: upt_Suc)
  then have lt: "last (shown_texts (calls (world s))) = ''frame: 100''"
    by (simp add: str_int_100)
  from m l sf lt show ?thesis
    by (simp add: frames_def js_def)
qed

end
